theory Spec2Isabelle
  imports Complex_Main "HOL-Library.Multiset"
begin

section \<open>Country population guessing game: data model\<close>

text \<open>
  The two dataclasses of \<^verbatim>\<open>main.py\<close>. Python compares dataclass instances field by
  field, which is the equality of records; Python's \<^verbatim>\<open>int\<close> is unbounded, hence \<open>int\<close>.
\<close>

record Country =
  name :: string
  population :: int

record UserScore =
  username :: string
  score :: int

text \<open>The exceptions that the modelled functions can raise.\<close>

datatype error =
    IndexError
  | EOFError
  | ConnectionError
  | JSONDecodeError
  | OverflowError

section \<open>Guess evaluator\<close>

text \<open>
  \<^verbatim>\<open>check_user_guess\<close> (lines 124 to 142). Python's \<^verbatim>\<open>and\<close> binds tighter than
  \<^verbatim>\<open>or\<close>, so the condition is a disjunction of two conjunctions; the second one asks
  for \<^verbatim>\<open>user_guess != "1"\<close>, not for \<^verbatim>\<open>user_guess == "2"\<close>.
\<close>

definition check_user_guess :: "Country \<Rightarrow> Country \<Rightarrow> string \<Rightarrow> bool" where
  "check_user_guess country1 country2 user_guess =
     (if user_guess = ''1'' \<and> population country1 \<ge> population country2
         \<or> user_guess \<noteq> ''1'' \<and> population country2 \<ge> population country1
      then True
      else False)"

text \<open>Sample countries: the two of the spec's scenario, and two with equal populations.\<close>

definition usa :: Country where
  "usa = \<lparr>name = ''USA'', population = 331000000\<rparr>"

definition canada :: Country where
  "canada = \<lparr>name = ''Canada'', population = 38000000\<rparr>"

definition north :: Country where
  "north = \<lparr>name = ''North'', population = 5000000\<rparr>"

definition south :: Country where
  "south = \<lparr>name = ''South'', population = 5000000\<rparr>"

section \<open>Round selector\<close>

text \<open>
  \<^verbatim>\<open>random.choice\<close> and \<^verbatim>\<open>random.randint\<close> read a source of randomness. The model makes
  that source an argument: \<open>rs\<close> is the sequence of raw draws and a position \<open>i\<close> says
  how many have been used. \<^verbatim>\<open>choice(xs)\<close> turns a draw into an index below \<open>len(xs)\<close>
  and raises \<^verbatim>\<open>IndexError\<close> on an empty list; \<^verbatim>\<open>randint(0, 1)\<close> turns a draw into 0 or 1.
  Every index and both coin faces are possible outcomes, and nothing else is assumed
  about \<open>rs\<close>.
\<close>

type_synonym rand = "nat \<Rightarrow> nat"

definition choice :: "rand \<Rightarrow> nat \<Rightarrow> 'a list \<Rightarrow> error + ('a \<times> nat)" where
  "choice rs i xs =
     (if xs = [] then Inl IndexError else Inr (xs ! (rs i mod length xs), Suc i))"

definition randint_0_1 :: "rand \<Rightarrow> nat \<Rightarrow> nat \<times> nat" where
  "randint_0_1 rs i = (rs i mod 2, Suc i)"

text \<open>
  \<^verbatim>\<open>set_countries\<close>, lines 108 to 117: an absent first country is drawn, an absent
  second country is drawn, then a coin decides which of the two is drawn again. The result
  is the pair after these steps and the position in \<open>rs\<close> after them.
\<close>

definition roll ::
  "rand \<Rightarrow> nat \<Rightarrow> Country option \<Rightarrow> Country option \<Rightarrow> Country list
     \<Rightarrow> error + ((Country \<times> Country) \<times> nat)" where
  "roll rs i country_1 country_2 names_and_populations =
     (case (case country_1 of None \<Rightarrow> choice rs i names_and_populations
                            | Some c \<Rightarrow> Inr (c, i)) of
        Inl e \<Rightarrow> Inl e
      | Inr (c1, i1) \<Rightarrow>
     (case (case country_2 of None \<Rightarrow> choice rs i1 names_and_populations
                            | Some c \<Rightarrow> Inr (c, i1)) of
        Inl e \<Rightarrow> Inl e
      | Inr (c2, i2) \<Rightarrow>
     (case randint_0_1 rs i2 of (coin, i3) \<Rightarrow>
        if coin = 0
        then (case choice rs i3 names_and_populations of
                Inl e \<Rightarrow> Inl e
              | Inr (c, i4) \<Rightarrow> Inr ((c, c2), i4))
        else (case choice rs i3 names_and_populations of
                Inl e \<Rightarrow> Inl e
              | Inr (c, i4) \<Rightarrow> Inr ((c1, c), i4)))))"

text \<open>
  \<^verbatim>\<open>set_countries\<close>, lines 119 to 122: when the two countries are equal by value the
  function calls itself with the pair it has just produced. Nothing bounds the number of
  these calls, so the result is an \<open>option\<close>: \<open>None\<close> is a call that never returns a
  pair (in CPython such a run ends in \<^verbatim>\<open>RecursionError\<close>). \<open>Some (Inl e)\<close> is an
  exception, \<open>Some (Inr ((c1, c2), j))\<close> the returned pair with the position in \<open>rs\<close>.
\<close>

partial_function (option) set_countries ::
  "rand \<Rightarrow> nat \<Rightarrow> Country option \<Rightarrow> Country option \<Rightarrow> Country list
     \<Rightarrow> (error + ((Country \<times> Country) \<times> nat)) option" where
  "set_countries rs i country_1 country_2 names_and_populations =
     (case roll rs i country_1 country_2 names_and_populations of
        Inl e \<Rightarrow> Some (Inl e)
      | Inr ((c1, c2), j) \<Rightarrow>
          if c1 = c2
          then set_countries rs j (Some c1) (Some c2) names_and_populations
          else Some (Inr ((c1, c2), j)))"

declare set_countries.simps [code]

text \<open>
  After a pass that ends at position \<open>j\<close> with two countries equal to \<open>c\<close>, every
  further pass uses two draws: the coin at \<open>j + 2 * m\<close> and the pick at
  \<open>j + 2 * m + 1\<close>, for \<open>m = 0, 1, \<dots>\<close> as long as the pair stays equal.
  \<open>differing_draw rs j c xs m\<close> says that the pick of pass \<open>m\<close> is a country other than
  \<open>c\<close>.
\<close>

definition differing_draw :: "rand \<Rightarrow> nat \<Rightarrow> Country \<Rightarrow> Country list \<Rightarrow> nat \<Rightarrow> bool" where
  "differing_draw rs j c names_and_populations m \<longleftrightarrow>
     names_and_populations ! (rs (j + 2 * m + 1) mod length names_and_populations) \<noteq> c"

text \<open>
  Three sources of randomness: every draw is 0; every draw is 0 but the second; every
  draw is 0 but the eighth.
\<close>

definition always_first :: rand where
  "always_first n = 0"

definition second_once :: rand where
  "second_once n = (if n = 1 then 1 else 0)"

definition eighth_differs :: rand where
  "eighth_differs n = (if n = 7 then 1 else 0)"

section \<open>Game loop\<close>

text \<open>
  The console. Standard input is the list of lines still to be read; \<^verbatim>\<open>input\<close> raises
  \<^verbatim>\<open>EOFError\<close> when none is left. Standard output is the list of what has been printed,
  one \<open>event\<close> for each \<^verbatim>\<open>print\<close> and each prompt of \<^verbatim>\<open>input\<close> (the formatted text of
  a line depends on the locale and is not modelled).
\<close>

datatype event =
    Ask_guess string string
  | Show_country Country
  | Correct
  | Incorrect
  | Ask_continue
  | Current_score int
  | Final_score int

text \<open>
  \<^verbatim>\<open>str.lower\<close> on ASCII letters. Other characters are left as they are; no character
  outside ASCII has \<^verbatim>\<open>y\<close> or \<^verbatim>\<open>n\<close> as its lower case.
\<close>

definition lower_char :: "char \<Rightarrow> char" where
  "lower_char c =
     (case map_of (zip ''ABCDEFGHIJKLMNOPQRSTUVWXYZ'' ''abcdefghijklmnopqrstuvwxyz'') c of
        Some l \<Rightarrow> l
      | None \<Rightarrow> c)"

definition lower :: "string \<Rightarrow> string" where
  "lower s = map lower_char s"

text \<open>
  Lines 166 to 171: the prompt is repeated until the line read is \<^verbatim>\<open>"1"\<close> or \<^verbatim>\<open>"2"\<close>.
  The loop variable starts as the empty string.
\<close>

fun guess_loop ::
  "string \<Rightarrow> Country \<Rightarrow> Country \<Rightarrow> string list \<Rightarrow> event list
     \<Rightarrow> error + (string \<times> string list \<times> event list)" where
  "guess_loop user_guess country1 country2 ins out =
     (if user_guess \<notin> set [''1'', ''2'']
      then (case ins of
              [] \<Rightarrow> Inl EOFError
            | line # rest \<Rightarrow>
                guess_loop line country1 country2 rest
                  (out @ [Ask_guess (name country1) (name country2)]))
      else Inr (user_guess, ins, out))"

text \<open>Lines 184 to 187: the same for the lower-cased answer \<^verbatim>\<open>"y"\<close> or \<^verbatim>\<open>"n"\<close>.\<close>

fun play_again_loop ::
  "string \<Rightarrow> string list \<Rightarrow> event list \<Rightarrow> error + (string \<times> string list \<times> event list)" where
  "play_again_loop play_again ins out =
     (if play_again \<notin> set [''y'', ''n'']
      then (case ins of
              [] \<Rightarrow> Inl EOFError
            | line # rest \<Rightarrow> play_again_loop (lower line) rest (out @ [Ask_continue]))
      else Inr (play_again, ins, out))"

declare guess_loop.simps [simp del] play_again_loop.simps [simp del]

text \<open>
  The state at the head of \<^verbatim>\<open>while True\<close> (line 158): the local variables
  \<^verbatim>\<open>country1\<close>, \<^verbatim>\<open>country2\<close> and \<^verbatim>\<open>score\<close> (here \<open>tally\<close>, since \<open>score\<close> is the field
  of \<open>UserScore\<close>), the position in the source of randomness, the lines still to be read
  and what has been printed.
\<close>

type_synonym game_state =
  "Country option \<times> Country option \<times> int \<times> nat \<times> string list \<times> event list"

datatype flow = Break game_state | Continue game_state

text \<open>
  One pass through the body of the loop, lines 160 to 192. A wrong guess prints
  \<^verbatim>\<open>Incorrect!\<close> and breaks; a right guess adds one to the score, prints \<^verbatim>\<open>Correct!\<close>
  and asks whether to continue.
\<close>

definition game_round :: "rand \<Rightarrow> Country list \<Rightarrow> game_state \<Rightarrow> (error + flow) option" where
  "game_round rs names_and_populations st =
     (case st of (country1, country2, tally, i, ins, out) \<Rightarrow>
      (case set_countries rs i country1 country2 names_and_populations of
         None \<Rightarrow> None
       | Some (Inl e) \<Rightarrow> Some (Inl e)
       | Some (Inr ((c1, c2), j)) \<Rightarrow>
          (case guess_loop [] c1 c2 ins out of
             Inl e \<Rightarrow> Some (Inl e)
           | Inr (user_guess, ins1, out1) \<Rightarrow>
              (let out2 = out1 @ [Show_country c1, Show_country c2] in
               if check_user_guess c1 c2 user_guess
               then (case play_again_loop [] ins1 (out2 @ [Correct]) of
                       Inl e \<Rightarrow> Some (Inl e)
                     | Inr (play_again, ins2, out3) \<Rightarrow>
                         if play_again = ''n''
                         then Some (Inr (Break (Some c1, Some c2, tally + 1, j, ins2, out3)))
                         else Some (Inr (Continue (Some c1, Some c2, tally + 1, j, ins2,
                                 out3 @ [Current_score (tally + 1)]))))
               else Some (Inr (Break (Some c1, Some c2, tally, j, ins1,
                       out2 @ [Incorrect])))))))"

partial_function (option) game_rounds ::
  "rand \<Rightarrow> Country list \<Rightarrow> game_state \<Rightarrow> (error + game_state) option" where
  "game_rounds rs names_and_populations st =
     (case game_round rs names_and_populations st of
        None \<Rightarrow> None
      | Some (Inl e) \<Rightarrow> Some (Inl e)
      | Some (Inr (Break st')) \<Rightarrow> Some (Inr st')
      | Some (Inr (Continue st')) \<Rightarrow> game_rounds rs names_and_populations st')"

declare game_rounds.simps [code]

text \<open>
  \<^verbatim>\<open>game_loop\<close>, lines 153 to 196: both countries absent, score 0, then the loop, then
  the final score is printed and returned. The model returns with the score what is left
  of the console.
\<close>

definition game_loop ::
  "rand \<Rightarrow> Country list \<Rightarrow> string list
     \<Rightarrow> (error + (int \<times> nat \<times> string list \<times> event list)) option" where
  "game_loop rs names_and_populations ins =
     (case game_rounds rs names_and_populations (None, None, 0, 0, ins, []) of
        None \<Rightarrow> None
      | Some (Inl e) \<Rightarrow> Some (Inl e)
      | Some (Inr (country1, country2, tally, i, ins', out)) \<Rightarrow>
          Some (Inr (tally, i, ins', out @ [Final_score tally])))"

text \<open>
  The states in which a run of \<^verbatim>\<open>game_loop\<close> on the input \<open>ins0\<close> stands at the head
  of the loop: the initial one, and every state that a pass through the body continues
  with.
\<close>

inductive loop_head :: "rand \<Rightarrow> Country list \<Rightarrow> string list \<Rightarrow> game_state \<Rightarrow> bool"
  for rs names_and_populations ins0 where
    first: "loop_head rs names_and_populations ins0 (None, None, 0, 0, ins0, [])"
  | again: "loop_head rs names_and_populations ins0 st \<Longrightarrow>
            game_round rs names_and_populations st = Some (Inr (Continue st')) \<Longrightarrow>
            loop_head rs names_and_populations ins0 st'"

code_pred (modes: i \<Rightarrow> i \<Rightarrow> i \<Rightarrow> o \<Rightarrow> bool) loop_head .

text \<open>
  The guesses of a run, told without the bookkeeping of the loop (no score, nothing
  printed). \<open>right_guesses rs xs ins0 n (country1, country2, i, ins)\<close> says that on the
  input \<open>ins0\<close> exactly \<open>n\<close> rounds have been played so far, that in each of them the
  guess read at the prompt was right by \<^verbatim>\<open>check_user_guess\<close> and the answer read at the
  continue prompt was not \<^verbatim>\<open>"n"\<close>, and that the last pair shown is
  \<open>(country1, country2)\<close>, with \<open>i\<close> draws used and the lines \<open>ins\<close> still to be read.
\<close>

inductive right_guesses ::
  "rand \<Rightarrow> Country list \<Rightarrow> string list \<Rightarrow> nat
     \<Rightarrow> Country option \<times> Country option \<times> nat \<times> string list \<Rightarrow> bool"
  for rs names_and_populations ins0 where
    none_yet: "right_guesses rs names_and_populations ins0 0 (None, None, 0, ins0)"
  | one_more: "right_guesses rs names_and_populations ins0 n (country1, country2, i, ins) \<Longrightarrow>
               set_countries rs i country1 country2 names_and_populations
                 = Some (Inr ((c1, c2), j)) \<Longrightarrow>
               guess_loop [] c1 c2 ins [] = Inr (user_guess, ins1, asked1) \<Longrightarrow>
               check_user_guess c1 c2 user_guess \<Longrightarrow>
               play_again_loop [] ins1 [] = Inr (play_again, ins2, asked2) \<Longrightarrow>
               play_again \<noteq> ''n'' \<Longrightarrow>
               right_guesses rs names_and_populations ins0 (Suc n) (Some c1, Some c2, j, ins2)"

code_pred (modes: i \<Rightarrow> i \<Rightarrow> i \<Rightarrow> o \<Rightarrow> o \<Rightarrow> bool) right_guesses .

text \<open>
  A session on the catalog of USA and Canada. The draws make the first round show USA
  and Canada; in the second round the first re-roll gives Canada twice and the selector
  rolls again, to Canada and USA, which the later rounds keep. The lines typed are four
  right guesses (one \<^verbatim>\<open>"1"\<close>, three \<^verbatim>\<open>"2"\<close>, with an upper-case \<^verbatim>\<open>Y\<close> and a rejected
  answer on the way), then a rejected guess and a wrong one.
\<close>

definition game_draws :: rand where
  "game_draws n = (if n \<in> {1, 5, 6, 9, 11, 13} then 1 else 0)"

definition four_right_then_wrong :: "string list" where
  "four_right_then_wrong =
     [''1'', ''Y'', ''2'', ''y'', ''2'', ''maybe'', ''y'', ''2'', ''y'', ''x'', ''1'']"

definition asked :: event where
  "asked = Ask_guess ''Canada'' ''USA''"

definition right_round :: "Country \<Rightarrow> Country \<Rightarrow> int \<Rightarrow> event list" where
  "right_round c1 c2 k =
     [Ask_guess (name c1) (name c2), Show_country c1, Show_country c2, Correct,
      Ask_continue, Current_score k]"

definition four_right_out :: "event list" where
  "four_right_out = right_round usa canada 1 @ right_round canada usa 2
     @ [asked, Show_country canada, Show_country usa, Correct, Ask_continue, Ask_continue,
        Current_score 3]
     @ right_round canada usa 4"

section \<open>Data source adapter\<close>

text \<open>
  What \<^verbatim>\<open>make_country_request\<close> and \<^verbatim>\<open>get_country_information\<close> read and change
  outside the program. The \<open>world\<close> holds the cache file \<^verbatim>\<open>country_information.json\<close>
  (absent, or its modification time and content) and the list of HTTP requests made so
  far. The \<open>env\<close> holds what the functions only read: the outcome of \<^verbatim>\<open>requests.get\<close>
  for an address (a response, or an exception such as a connection error), the JSON
  parser (\<open>None\<close> for text that is not JSON), the modification time of the program file
  and the time that a file written now receives. The field \<open>resp_text\<close> of a response
  is \<^verbatim>\<open>request.text\<close>. Times are seconds as exact numbers; failures of the file system
  itself are not modelled.
\<close>

record response =
  status_code :: int
  resp_text :: string

record world =
  cache_file :: "(real \<times> string) option"
  requests_made :: "string list"

record 'j env =
  http_get :: "string \<Rightarrow> error + response"
  json_loads :: "string \<Rightarrow> 'j option"
  program_mtime :: real
  clock :: real

text \<open>\<^verbatim>\<open>request.json()\<close> and \<^verbatim>\<open>json.load(file)\<close>: the parsed document, or an exception.\<close>

definition parse_json :: "'j env \<Rightarrow> string \<Rightarrow> error + 'j option" where
  "parse_json env s =
     (case json_loads env s of None \<Rightarrow> Inl JSONDecodeError | Some doc \<Rightarrow> Inr (Some doc))"

text \<open>
  \<^verbatim>\<open>make_country_request\<close>, lines 46 to 50. The file is written before the status code
  is looked at, so the changed world is returned with an exception of the parser too.
\<close>

definition make_country_request ::
  "'j env \<Rightarrow> string \<Rightarrow> world \<Rightarrow> (error + 'j option) \<times> world" where
  "make_country_request env endpoint w =
     (let w1 = w\<lparr>requests_made := requests_made w @ [endpoint]\<rparr> in
      case http_get env endpoint of
        Inl e \<Rightarrow> (Inl e, w1)
      | Inr request \<Rightarrow>
          (let w2 = w1\<lparr>cache_file := Some (clock env, resp_text request)\<rparr> in
           (if status_code request = 200 then parse_json env (resp_text request) else Inr None,
            w2)))"

text \<open>
  \<^verbatim>\<open>get_country_information\<close>, lines 63 to 71. Python's \<^verbatim>\<open>or\<close> asks for the modification
  time only of a file that exists.
\<close>

definition get_country_information ::
  "'j env \<Rightarrow> string \<Rightarrow> world \<Rightarrow> (error + 'j option) \<times> world" where
  "get_country_information env endpoint w =
     (case cache_file w of
        None \<Rightarrow> make_country_request env endpoint w
      | Some (mtime, content) \<Rightarrow>
          if mtime < program_mtime env - 86400
          then make_country_request env endpoint w
          else (parse_json env content, w))"

text \<open>
  A server that answers 404, a program file that is exactly 24 hours younger than the
  cache file, and three states of the cache: that one, an older one, and none.
\<close>

definition endpoint_url :: string where
  "endpoint_url = ''https://restcountries.com/v3.1/independent?status=true''"

definition day_old_env :: "string env" where
  "day_old_env =
     \<lparr>http_get = (\<lambda>url. Inr \<lparr>status_code = 404, resp_text = ''Not Found''\<rparr>),
      json_loads = Some, program_mtime = 1700086400, clock = 1700090000\<rparr>"

definition day_old_world :: world where
  "day_old_world = \<lparr>cache_file = Some (1700000000, ''[]''), requests_made = []\<rparr>"

definition stale_world :: world where
  "stale_world = \<lparr>cache_file = Some (1699999999, ''[]''), requests_made = []\<rparr>"

definition no_cache_world :: world where
  "no_cache_world = \<lparr>cache_file = None, requests_made = []\<rparr>"

section \<open>Score store\<close>

text \<open>
  The table \<^verbatim>\<open>country_information\<close> of the database file, as the list of its rows in
  the order of their \<^verbatim>\<open>id\<close>; the table exists (\<^verbatim>\<open>main\<close> creates it before any query).
\<close>

record db_row =
  row_id :: nat
  row_username :: string
  row_score :: int

text \<open>
  The query of \<^verbatim>\<open>get_top_scores\<close>, lines 254 to 264. An integer of SQLite has 64 bits:
  \<^verbatim>\<open>sqlite3\<close> raises \<^verbatim>\<open>OverflowError\<close> when it binds a Python \<^verbatim>\<open>int\<close> outside that range
  to the \<^verbatim>\<open>?\<close> of the statement. \<^verbatim>\<open>ORDER BY score DESC\<close> is modelled by a stable sort
  (SQLite promises no order among equal scores; nothing below depends on it), and a
  negative \<^verbatim>\<open>LIMIT\<close> is no limit in SQLite.
\<close>

definition sqlite_integer :: "int \<Rightarrow> bool" where
  "sqlite_integer n \<longleftrightarrow> - (2 ^ 63) \<le> n \<and> n < 2 ^ 63"

definition order_by_score_desc :: "db_row list \<Rightarrow> db_row list" where
  "order_by_score_desc table = sort_key (\<lambda>r. - row_score r) table"

definition sql_limit :: "int \<Rightarrow> 'a list \<Rightarrow> 'a list" where
  "sql_limit n xs = (if n < 0 then xs else take (nat n) xs)"

definition user_score_of :: "db_row \<Rightarrow> UserScore" where
  "user_score_of r = \<lparr>username = row_username r, score = row_score r\<rparr>"

definition get_top_scores :: "int \<Rightarrow> db_row list \<Rightarrow> error + UserScore list" where
  "get_top_scores amount table =
     (if sqlite_integer amount
      then Inr (map user_score_of (sql_limit amount (order_by_score_desc table)))
      else Inl OverflowError)"

text \<open>A leaderboard of three rows, two of them with the same score.\<close>

definition leaderboard :: "db_row list" where
  "leaderboard =
     [\<lparr>row_id = 1, row_username = ''AMY'', row_score = 4\<rparr>,
      \<lparr>row_id = 2, row_username = ''BOB'', row_score = 7\<rparr>,
      \<lparr>row_id = 3, row_username = ''DAN'', row_score = 4\<rparr>]"

definition amy :: UserScore where
  "amy = \<lparr>username = ''AMY'', score = 4\<rparr>"

definition bob :: UserScore where
  "bob = \<lparr>username = ''BOB'', score = 7\<rparr>"

definition dan :: UserScore where
  "dan = \<lparr>username = ''DAN'', score = 4\<rparr>"

section \<open>Properties of the guess evaluator\<close>

text \<open>
  Claim C1. For a guess that is \<^verbatim>\<open>"1"\<close> or \<^verbatim>\<open>"2"\<close>, the evaluator answers true exactly
  when the guess is \<^verbatim>\<open>"1"\<close> and the first population is at least the second, or the
  guess is \<^verbatim>\<open>"2"\<close> and the second population is at least the first. In particular, with
  equal populations both guesses are correct, and with a strictly larger first population
  guess \<^verbatim>\<open>"1"\<close> is correct and guess \<^verbatim>\<open>"2"\<close> is not.
\<close>

theorem check_user_guess_one_or_two:
  assumes "user_guess \<in> {''1'', ''2''}"
  shows "(check_user_guess c1 c2 user_guess \<longleftrightarrow>
            user_guess = ''1'' \<and> population c1 \<ge> population c2
          \<or> user_guess = ''2'' \<and> population c2 \<ge> population c1)
       \<and> (population c1 = population c2 \<longrightarrow>
            check_user_guess c1 c2 ''1'' \<and> check_user_guess c1 c2 ''2'')
       \<and> (population c1 > population c2 \<longrightarrow>
            check_user_guess c1 c2 ''1'' \<and> \<not> check_user_guess c1 c2 ''2'')"
  using assms by (auto simp: check_user_guess_def)

theorem check_user_guess_one_or_two_witness:
  "''1'' \<in> {''1'', ''2''} \<and> ''2'' \<in> {''1'', ''2''}
   \<and> population usa > population canada
   \<and> population north = population south
   \<and> check_user_guess usa canada ''1'' \<and> \<not> check_user_guess usa canada ''2''
   \<and> check_user_guess north south ''1'' \<and> check_user_guess north south ''2''"
proof -
  have one: "''1'' \<in> {''1'', ''2''}" and two: "''2'' \<in> {''1'', ''2''}"
    by simp_all
  have gt: "population usa > population canada"
    by (simp add: usa_def canada_def)
  have eq: "population north = population south"
    by (simp add: north_def south_def)
  from check_user_guess_one_or_two [OF one, of usa canada] gt
  have "check_user_guess usa canada ''1'' \<and> \<not> check_user_guess usa canada ''2''"
    by blast
  moreover from check_user_guess_one_or_two [OF two, of north south] eq
  have "check_user_guess north south ''1'' \<and> check_user_guess north south ''2''"
    by blast
  ultimately show ?thesis
    using one two gt eq by blast
qed

text \<open>
  Claim C8. Every guess other than \<^verbatim>\<open>"1"\<close> (so \<^verbatim>\<open>"2"\<close>, but also \<^verbatim>\<open>"x"\<close> or the empty
  string) is judged as a choice of the second country: the answer is whether the second
  population is at least the first.
\<close>

theorem check_user_guess_not_one:
  assumes "user_guess \<noteq> ''1''"
  shows "check_user_guess c1 c2 user_guess \<longleftrightarrow> population c2 \<ge> population c1"
  using assms by (simp add: check_user_guess_def)

theorem check_user_guess_not_one_witness:
  "''x'' \<noteq> ''1'' \<and> [] \<noteq> ''1''
   \<and> \<not> check_user_guess usa canada ''x'' \<and> check_user_guess canada usa []"
proof -
  have x: "''x'' \<noteq> ''1''" and e: "[] \<noteq> ''1''"
    by simp_all
  have "\<not> check_user_guess usa canada ''x''"
    using check_user_guess_not_one [OF x, of usa canada] by (simp add: usa_def canada_def)
  moreover have "check_user_guess canada usa []"
    using check_user_guess_not_one [OF e, of canada usa] by (simp add: usa_def canada_def)
  ultimately show ?thesis
    using x e by blast
qed

section \<open>Properties of the round selector\<close>

lemma choice_nonempty:
  "xs \<noteq> [] \<Longrightarrow> choice rs i xs = Inr (xs ! (rs i mod length xs), Suc i)"
  by (simp add: choice_def)

lemma roll_nonempty:
  assumes "names_and_populations \<noteq> []"
  shows "roll rs i country_1 country_2 names_and_populations \<noteq> Inl e"
  using assms
  by (simp add: roll_def choice_nonempty randint_0_1_def split: option.splits)

lemma roll_in_catalog:
  assumes "roll rs i country_1 country_2 names_and_populations = Inr ((c1, c2), j)"
    and "set_option country_1 \<subseteq> set names_and_populations"
    and "set_option country_2 \<subseteq> set names_and_populations"
  shows "c1 \<in> set names_and_populations \<and> c2 \<in> set names_and_populations"
proof (cases "names_and_populations = []")
  case True
  with assms(1) show ?thesis
    by (simp add: roll_def choice_def randint_0_1_def split: option.splits if_splits)
next
  case False
  then have "\<And>k. names_and_populations ! (k mod length names_and_populations)
      \<in> set names_and_populations"
    by simp
  with False assms show ?thesis
    by (auto simp: roll_def choice_nonempty randint_0_1_def split: option.splits if_splits)
qed

text \<open>
  Whatever the selector returns on a catalog that is not empty, with previous countries
  taken from it, is a pair of two different countries of the catalog. The proof is by
  induction on the calls of the selector that return.
\<close>

lemma set_countries_result:
  assumes ret: "set_countries rs i country_1 country_2 names_and_populations = Some r"
    and "names_and_populations \<noteq> []"
    and "set_option country_1 \<subseteq> set names_and_populations"
    and "set_option country_2 \<subseteq> set names_and_populations"
  shows "\<exists>c1 c2 j. r = Inr ((c1, c2), j) \<and> c1 \<in> set names_and_populations
           \<and> c2 \<in> set names_and_populations \<and> c1 \<noteq> c2"
proof -
  have "names_and_populations \<noteq> [] \<longrightarrow>
        set_option country_1 \<subseteq> set names_and_populations \<longrightarrow>
        set_option country_2 \<subseteq> set names_and_populations \<longrightarrow>
        (\<exists>c1 c2 j. r = Inr ((c1, c2), j) \<and> c1 \<in> set names_and_populations
           \<and> c2 \<in> set names_and_populations \<and> c1 \<noteq> c2)"
  proof (rule set_countries.raw_induct [where P = "\<lambda>rs i p1 p2 cat r.
      cat \<noteq> [] \<longrightarrow> set_option p1 \<subseteq> set cat \<longrightarrow> set_option p2 \<subseteq> set cat \<longrightarrow>
      (\<exists>c1 c2 j. r = Inr ((c1, c2), j) \<and> c1 \<in> set cat \<and> c2 \<in> set cat \<and> c1 \<noteq> c2)",
      OF _ ret])
    fix f rs i p1 p2 cat r
    assume IH: "\<And>rs i p1 p2 cat r. f rs i p1 p2 cat = Some r \<Longrightarrow>
        cat \<noteq> [] \<longrightarrow> set_option p1 \<subseteq> set cat \<longrightarrow> set_option p2 \<subseteq> set cat \<longrightarrow>
        (\<exists>c1 c2 j. r = Inr ((c1, c2), j) \<and> c1 \<in> set cat \<and> c2 \<in> set cat \<and> c1 \<noteq> c2)"
      and body: "(case roll rs i p1 p2 cat of
          Inl e \<Rightarrow> Some (Inl e)
        | Inr ((c1, c2), j) \<Rightarrow>
            if c1 = c2 then f rs j (Some c1) (Some c2) cat
            else Some (Inr ((c1, c2), j))) = Some r"
    show "cat \<noteq> [] \<longrightarrow> set_option p1 \<subseteq> set cat \<longrightarrow> set_option p2 \<subseteq> set cat \<longrightarrow>
        (\<exists>c1 c2 j. r = Inr ((c1, c2), j) \<and> c1 \<in> set cat \<and> c2 \<in> set cat \<and> c1 \<noteq> c2)"
    proof (intro impI)
      assume ne: "cat \<noteq> []" and p1: "set_option p1 \<subseteq> set cat"
        and p2: "set_option p2 \<subseteq> set cat"
      from ne obtain c1 c2 j where rolled: "roll rs i p1 p2 cat = Inr ((c1, c2), j)"
        using roll_nonempty [of cat rs i p1 p2]
        by (cases "roll rs i p1 p2 cat") auto
      from roll_in_catalog [OF rolled p1 p2] have mem: "c1 \<in> set cat" "c2 \<in> set cat"
        by simp_all
      show "\<exists>c1 c2 j. r = Inr ((c1, c2), j) \<and> c1 \<in> set cat \<and> c2 \<in> set cat \<and> c1 \<noteq> c2"
      proof (cases "c1 = c2")
        case True
        with body rolled have "f rs j (Some c1) (Some c2) cat = Some r"
          by simp
        from IH [OF this] ne mem show ?thesis
          by simp
      next
        case False
        with body rolled have "r = Inr ((c1, c2), j)"
          by simp
        with False mem show ?thesis
          by blast
      qed
    qed
  qed
  with assms(2-4) show ?thesis
    by blast
qed

text \<open>The same for the difference alone, on any catalog and any previous pair.\<close>

lemma set_countries_distinct:
  assumes ret: "set_countries rs i country_1 country_2 names_and_populations
                  = Some (Inr ((c1, c2), j))"
  shows "c1 \<noteq> c2"
proof -
  have "\<forall>a b k. (Inr ((c1, c2), j) :: error + (Country \<times> Country) \<times> nat) = Inr ((a, b), k)
      \<longrightarrow> a \<noteq> b"
  proof (rule set_countries.raw_induct [where P = "\<lambda>rs i p1 p2 cat r.
      \<forall>a b k. r = Inr ((a, b), k) \<longrightarrow> a \<noteq> b", OF _ ret])
    fix f rs i p1 p2 cat r
    assume IH: "\<And>rs i p1 p2 cat r. f rs i p1 p2 cat = Some r \<Longrightarrow>
        \<forall>a b k. r = Inr ((a, b), k) \<longrightarrow> a \<noteq> b"
      and body: "(case roll rs i p1 p2 cat of
          Inl e \<Rightarrow> Some (Inl e)
        | Inr ((c1, c2), j) \<Rightarrow>
            if c1 = c2 then f rs j (Some c1) (Some c2) cat
            else Some (Inr ((c1, c2), j))) = Some r"
    show "\<forall>a b k. r = Inr ((a, b), k) \<longrightarrow> a \<noteq> b"
    proof (cases "roll rs i p1 p2 cat")
      case (Inl e)
      with body show ?thesis
        by auto
    next
      case (Inr res)
      obtain x y n where res: "res = ((x, y), n)"
        by (cases res) auto
      show ?thesis
      proof (cases "x = y")
        case True
        with body Inr res have "f rs n (Some x) (Some y) cat = Some r"
          by simp
        from IH [OF this] show ?thesis .
      next
        case False
        with body Inr res show ?thesis
          by auto
      qed
    qed
  qed
  then show ?thesis
    by blast
qed

text \<open>
  On a catalog whose entries are all equal by value the selector never returns, whatever
  the random draws are.
\<close>

lemma set_countries_all_equal:
  assumes "names_and_populations \<noteq> []"
    and "set names_and_populations \<subseteq> {c}"
    and "set_option country_1 \<subseteq> {c}"
    and "set_option country_2 \<subseteq> {c}"
  shows "set_countries rs i country_1 country_2 names_and_populations = None"
proof (cases "set_countries rs i country_1 country_2 names_and_populations")
  case None
  then show ?thesis .
next
  case (Some r)
  from assms have "set names_and_populations = {c}"
    by (cases names_and_populations) auto
  with assms set_countries_result [OF Some] show ?thesis
    by auto
qed

text \<open>
  On any catalog, a source of randomness whose draws are all 0 picks the first entry
  every time, and the selector never returns: no catalog makes the selector return for
  every outcome of the draws.
\<close>

lemma roll_always_first:
  assumes "names_and_populations \<noteq> []"
    and "set_option country_1 \<subseteq> {names_and_populations ! 0}"
    and "set_option country_2 \<subseteq> {names_and_populations ! 0}"
  shows "\<exists>j. roll always_first i country_1 country_2 names_and_populations
           = Inr ((names_and_populations ! 0, names_and_populations ! 0), j)"
  using assms
  by (auto simp: roll_def choice_nonempty randint_0_1_def always_first_def
      split: option.splits)

lemma set_countries_always_first:
  assumes "names_and_populations \<noteq> []"
    and "set_option country_1 \<subseteq> {names_and_populations ! 0}"
    and "set_option country_2 \<subseteq> {names_and_populations ! 0}"
  shows "set_countries always_first i country_1 country_2 names_and_populations = None"
proof (cases "set_countries always_first i country_1 country_2 names_and_populations")
  case None
  then show ?thesis .
next
  case (Some r)
  have "always_first = always_first \<longrightarrow> names_and_populations \<noteq> [] \<longrightarrow>
        set_option country_1 \<subseteq> {names_and_populations ! 0} \<longrightarrow>
        set_option country_2 \<subseteq> {names_and_populations ! 0} \<longrightarrow> False"
  proof (rule set_countries.raw_induct [where P = "\<lambda>rs i p1 p2 cat r.
      rs = always_first \<longrightarrow> cat \<noteq> [] \<longrightarrow> set_option p1 \<subseteq> {cat ! 0} \<longrightarrow>
      set_option p2 \<subseteq> {cat ! 0} \<longrightarrow> False", OF _ Some])
    fix f rs i p1 p2 cat r
    assume IH: "\<And>rs i p1 p2 cat r. f rs i p1 p2 cat = Some r \<Longrightarrow>
        rs = always_first \<longrightarrow> cat \<noteq> [] \<longrightarrow> set_option p1 \<subseteq> {cat ! 0} \<longrightarrow>
        set_option p2 \<subseteq> {cat ! 0} \<longrightarrow> False"
      and body: "(case roll rs i p1 p2 cat of
          Inl e \<Rightarrow> Some (Inl e)
        | Inr ((c1, c2), j) \<Rightarrow>
            if c1 = c2 then f rs j (Some c1) (Some c2) cat
            else Some (Inr ((c1, c2), j))) = Some r"
    show "rs = always_first \<longrightarrow> cat \<noteq> [] \<longrightarrow> set_option p1 \<subseteq> {cat ! 0} \<longrightarrow>
        set_option p2 \<subseteq> {cat ! 0} \<longrightarrow> False"
    proof (intro impI)
      assume rs: "rs = always_first" and ne: "cat \<noteq> []"
        and p1: "set_option p1 \<subseteq> {cat ! 0}" and p2: "set_option p2 \<subseteq> {cat ! 0}"
      from roll_always_first [OF ne p1 p2, of i] rs
      obtain j where "roll rs i p1 p2 cat = Inr ((cat ! 0, cat ! 0), j)"
        by auto
      with body have "f rs j (Some (cat ! 0)) (Some (cat ! 0)) cat = Some r"
        by simp
      from IH [OF this] rs ne show False
        by simp
    qed
  qed
  with assms show ?thesis
    by simp
qed

text \<open>
  The passes that start from two equal countries. Each uses a coin and a pick; the pick
  replaces one of the two countries, and the pair is returned if the pick differs.
\<close>

lemma roll_returns:
  assumes "names_and_populations \<noteq> []"
  shows "\<exists>a b j. roll rs i country_1 country_2 names_and_populations = Inr ((a, b), j)"
  using roll_nonempty [OF assms, of rs i country_1 country_2]
  by (cases "roll rs i country_1 country_2 names_and_populations") auto

lemma roll_equal_pair:
  assumes "names_and_populations \<noteq> []"
  shows "roll rs j (Some c) (Some c) names_and_populations =
     (if rs j mod 2 = 0
      then Inr ((names_and_populations ! (rs (Suc j) mod length names_and_populations), c),
             Suc (Suc j))
      else Inr ((c, names_and_populations ! (rs (Suc j) mod length names_and_populations)),
             Suc (Suc j)))"
  using assms by (simp add: roll_def choice_nonempty randint_0_1_def)

text \<open>
  If the pick of pass \<open>m\<close> differs, the selector returns in that pass or an earlier one:
  induction on \<open>m\<close>, one re-roll of lines 119 to 120 for each step.
\<close>

lemma equal_pair_returns:
  assumes "names_and_populations \<noteq> []"
    and "differing_draw rs j c names_and_populations m"
  shows "\<exists>c1 c2 j'. set_countries rs j (Some c) (Some c) names_and_populations
             = Some (Inr ((c1, c2), j'))
           \<and> c1 \<noteq> c2 \<and> j' \<le> j + 2 * m + 2"
  using assms(2)
proof (induction m arbitrary: j)
  case 0
  then have "names_and_populations ! (rs (Suc j) mod length names_and_populations) \<noteq> c"
    by (simp add: differing_draw_def)
  then show ?case
    by (auto simp: set_countries.simps [of rs j] roll_equal_pair [OF assms(1)])
next
  case (Suc m)
  let ?pick = "names_and_populations ! (rs (Suc j) mod length names_and_populations)"
  show ?case
  proof (cases "?pick = c")
    case False
    then show ?thesis
      by (auto simp: set_countries.simps [of rs j] roll_equal_pair [OF assms(1)])
  next
    case True
    then have step: "set_countries rs j (Some c) (Some c) names_and_populations
        = set_countries rs (Suc (Suc j)) (Some c) (Some c) names_and_populations"
      by (simp add: set_countries.simps [of rs j] roll_equal_pair [OF assms(1)])
    from Suc.prems have "differing_draw rs (Suc (Suc j)) c names_and_populations m"
      by (simp add: differing_draw_def)
    from Suc.IH [OF this] obtain c1 c2 j'
      where "set_countries rs (Suc (Suc j)) (Some c) (Some c) names_and_populations
          = Some (Inr ((c1, c2), j'))"
        and "c1 \<noteq> c2" and "j' \<le> Suc (Suc j) + 2 * m + 2"
      by blast
    with step show ?thesis
      by auto
  qed
qed

text \<open>If no pick ever differs, the selector never returns.\<close>

lemma equal_pair_never_returns:
  assumes "names_and_populations \<noteq> []"
    and "\<forall>m. \<not> differing_draw rs j c names_and_populations m"
  shows "set_countries rs j (Some c) (Some c) names_and_populations = None"
proof (cases "set_countries rs j (Some c) (Some c) names_and_populations")
  case None
  then show ?thesis .
next
  case (Some r)
  have "\<forall>d. Some c = Some d \<and> Some c = Some d \<and> names_and_populations \<noteq> []
      \<and> (\<forall>m. \<not> differing_draw rs j d names_and_populations m) \<longrightarrow> False"
  proof (rule set_countries.raw_induct [where P = "\<lambda>rs i p1 p2 cat r.
      \<forall>d. p1 = Some d \<and> p2 = Some d \<and> cat \<noteq> []
        \<and> (\<forall>m. \<not> differing_draw rs i d cat m) \<longrightarrow> False", OF _ Some])
    fix f rs i p1 p2 cat r
    assume IH: "\<And>rs i p1 p2 cat r. f rs i p1 p2 cat = Some r \<Longrightarrow>
        \<forall>d. p1 = Some d \<and> p2 = Some d \<and> cat \<noteq> []
          \<and> (\<forall>m. \<not> differing_draw rs i d cat m) \<longrightarrow> False"
      and body: "(case roll rs i p1 p2 cat of
          Inl e \<Rightarrow> Some (Inl e)
        | Inr ((c1, c2), j) \<Rightarrow>
            if c1 = c2 then f rs j (Some c1) (Some c2) cat
            else Some (Inr ((c1, c2), j))) = Some r"
    show "\<forall>d. p1 = Some d \<and> p2 = Some d \<and> cat \<noteq> []
        \<and> (\<forall>m. \<not> differing_draw rs i d cat m) \<longrightarrow> False"
    proof (intro allI impI)
      fix d
      assume hyp: "p1 = Some d \<and> p2 = Some d \<and> cat \<noteq> []
          \<and> (\<forall>m. \<not> differing_draw rs i d cat m)"
      then have same: "\<And>m. cat ! (rs (i + 2 * m + 1) mod length cat) = d"
        by (simp add: differing_draw_def)
      from same [of 0] have "cat ! (rs (Suc i) mod length cat) = d"
        by simp
      with hyp body have "f rs (Suc (Suc i)) (Some d) (Some d) cat = Some r"
        by (simp add: roll_equal_pair split: if_splits)
      moreover have "\<forall>m. \<not> differing_draw rs (Suc (Suc i)) d cat m"
        using same [of "Suc _"] by (simp add: differing_draw_def)
      ultimately show False
        using IH hyp by blast
    qed
  qed
  with assms show ?thesis
    by blast
qed

lemmas selector_simps =
  set_countries.simps roll_def choice_def randint_0_1_def second_once_def usa_def canada_def

lemmas draw_simps =
  set_countries.simps roll_def choice_def randint_0_1_def eighth_differs_def
  always_first_def differing_draw_def usa_def canada_def

text \<open>
  Claim C2, as stated, fails twice. A catalog of size two whose entries are equal by
  value makes every pass produce two equal countries, and the selector never returns
  (\<open>set_countries_all_equal\<close> shows it for every source of randomness). On the catalog
  of two different countries, draws that pick the first entry every time never end the
  re-rolls either.
\<close>

theorem set_countries_never_returns:
  "2 \<le> length [canada, canada]
   \<and> set_countries second_once 0 None None [canada, canada] = None
   \<and> 2 \<le> length [usa, canada]
   \<and> set_countries always_first 0 None None [usa, canada] = None"
  using set_countries_all_equal [of "[canada, canada]" canada None None second_once 0]
    set_countries_always_first [of "[usa, canada]" None None 0]
  by simp

text \<open>
  Claim C2, amended. Take any catalog that is not empty (so any of size at least 2), any
  previous pair, and any random draws. The first pass of the selector produces a pair
  \<open>(a, b)\<close> and ends at a position \<open>j\<close> of the draws. If \<open>a\<close> and \<open>b\<close> are unequal by
  value, or if the pick of some later pass \<open>m\<close> is a country unequal to \<open>a\<close>, the
  selector terminates and returns a pair of countries that are unequal by value, having
  used no draw beyond position \<open>j + 2 * m + 2\<close>. If \<open>a\<close> and \<open>b\<close> are equal and no later
  pick is unequal to \<open>a\<close> (as on every catalog whose countries are all equal by value),
  the selector never returns.
\<close>

theorem set_countries_returns_iff_draw_differs:
  assumes "names_and_populations \<noteq> []"
  shows "\<exists>a b j. roll rs i country_1 country_2 names_and_populations = Inr ((a, b), j)
     \<and> (\<forall>m. a \<noteq> b \<or> differing_draw rs j a names_and_populations m \<longrightarrow>
          (\<exists>c1 c2 j'. set_countries rs i country_1 country_2 names_and_populations
               = Some (Inr ((c1, c2), j'))
             \<and> c1 \<noteq> c2 \<and> j' \<le> j + 2 * m + 2))
     \<and> (a = b \<and> (\<forall>m. \<not> differing_draw rs j a names_and_populations m) \<longrightarrow>
          set_countries rs i country_1 country_2 names_and_populations = None)"
proof -
  from roll_returns [OF assms] obtain a b j
    where rolled: "roll rs i country_1 country_2 names_and_populations = Inr ((a, b), j)"
    by blast
  have unfold: "set_countries rs i country_1 country_2 names_and_populations
      = (if a = b then set_countries rs j (Some a) (Some b) names_and_populations
         else Some (Inr ((a, b), j)))"
    using rolled by (simp add: set_countries.simps [of rs i])
  have fair: "\<exists>c1 c2 j'. set_countries rs i country_1 country_2 names_and_populations
        = Some (Inr ((c1, c2), j'))
      \<and> c1 \<noteq> c2 \<and> j' \<le> j + 2 * m + 2"
    if "a \<noteq> b \<or> differing_draw rs j a names_and_populations m" for m
  proof (cases "a = b")
    case False
    with unfold show ?thesis
      by simp
  next
    case True
    with that have "differing_draw rs j a names_and_populations m"
      by simp
    from equal_pair_returns [OF assms this] True unfold show ?thesis
      by simp
  qed
  have unfair: "set_countries rs i country_1 country_2 names_and_populations = None"
    if "a = b \<and> (\<forall>m. \<not> differing_draw rs j a names_and_populations m)"
    using that unfold equal_pair_never_returns [OF assms, of rs j a] by auto
  from rolled fair unfair show ?thesis
    by blast
qed

theorem set_countries_returns_iff_draw_differs_witness:
  "[usa, canada] \<noteq> []
   \<and> roll eighth_differs 0 None None [usa, canada] = Inr ((usa, usa), 4)
   \<and> differing_draw eighth_differs 4 usa [usa, canada] 1
   \<and> set_countries eighth_differs 0 None None [usa, canada] = Some (Inr ((canada, usa), 8))
   \<and> canada \<noteq> usa
   \<and> (8 :: nat) \<le> 4 + 2 * 1 + 2
   \<and> [canada, usa] \<noteq> []
   \<and> roll always_first 0 None None [canada, usa] = Inr ((canada, canada), 4)
   \<and> (\<forall>m. \<not> differing_draw always_first 4 canada [canada, usa] m)
   \<and> set_countries always_first 0 None None [canada, usa] = None"
proof -
  have ne: "[usa, canada] \<noteq> []"
    by simp
  have rolled: "roll eighth_differs 0 None None [usa, canada] = Inr ((usa, usa), 4)"
    by (simp add: draw_simps)
  have differs: "differing_draw eighth_differs 4 usa [usa, canada] 1"
    by (simp add: draw_simps)
  have ret: "set_countries eighth_differs 0 None None [usa, canada]
      = Some (Inr ((canada, usa), 8))"
    by (simp add: draw_simps)
  from set_countries_returns_iff_draw_differs [OF ne, of eighth_differs 0 None None]
    rolled differs ret
  have returned: "canada \<noteq> usa \<and> (8 :: nat) \<le> 4 + 2 * 1 + 2"
    by auto
  have ne': "[canada, usa] \<noteq> []"
    by simp
  have rolled': "roll always_first 0 None None [canada, usa] = Inr ((canada, canada), 4)"
    by (simp add: draw_simps)
  have never: "\<forall>m. \<not> differing_draw always_first 4 canada [canada, usa] m"
    by (simp add: draw_simps)
  from set_countries_returns_iff_draw_differs [OF ne', of always_first 0 None None]
    rolled' never
  have "set_countries always_first 0 None None [canada, usa] = None"
    by auto
  with ne rolled differs ret returned ne' rolled' never show ?thesis
    by blast
qed

text \<open>
  Claim C9. On a catalog that is not empty, with each previous country absent or an
  element of the catalog, whatever the round selector returns is a pair (not an
  exception) of two elements of the catalog.
\<close>

theorem set_countries_in_catalog:
  assumes "names_and_populations \<noteq> []"
    and "set_option country_1 \<subseteq> set names_and_populations"
    and "set_option country_2 \<subseteq> set names_and_populations"
    and "set_countries rs i country_1 country_2 names_and_populations = Some r"
  shows "\<exists>c1 c2 j. r = Inr ((c1, c2), j)
           \<and> c1 \<in> set names_and_populations \<and> c2 \<in> set names_and_populations"
  using set_countries_result [OF assms(4) assms(1-3)] by blast

theorem set_countries_in_catalog_witness:
  "[usa, canada] \<noteq> []
   \<and> set_option (Some canada) \<subseteq> set [usa, canada]
   \<and> set_option None \<subseteq> set [usa, canada]
   \<and> set_countries second_once 0 (Some canada) None [usa, canada]
       = Some (Inr ((canada, usa), 3))
   \<and> (\<exists>c1 c2 j. Inr ((canada, usa), 3) = (Inr ((c1, c2), j) :: error + _)
         \<and> c1 \<in> set [usa, canada] \<and> c2 \<in> set [usa, canada])"
proof -
  have ne: "[usa, canada] \<noteq> []"
    and p1: "set_option (Some canada) \<subseteq> set [usa, canada]"
    and p2: "set_option None \<subseteq> set [usa, canada]"
    by simp_all
  have ret: "set_countries second_once 0 (Some canada) None [usa, canada]
      = Some (Inr ((canada, usa), 3))"
    by (simp add: selector_simps)
  from set_countries_in_catalog [OF ne p1 p2 ret] ne p1 p2 ret
  show ?thesis
    by blast
qed

section \<open>Properties of the game loop\<close>

text \<open>Both prompt loops return one of the two accepted answers and print only prompts.\<close>

lemma guess_loop_result:
  "guess_loop user_guess country1 country2 ins out = Inr (g, ins', out') \<Longrightarrow>
   g \<in> {''1'', ''2''} \<and> count_list out' Correct = count_list out Correct"
proof (induction user_guess country1 country2 ins out rule: guess_loop.induct)
  case (1 user_guess country1 country2 ins out)
  show ?case
  proof (cases "user_guess \<notin> set [''1'', ''2'']")
    case False
    with "1.prems" show ?thesis
      by (auto simp: guess_loop.simps [of user_guess])
  next
    case True
    with "1.prems" obtain line rest where ins: "ins = line # rest"
      and rec: "guess_loop line country1 country2 rest
          (out @ [Ask_guess (name country1) (name country2)]) = Inr (g, ins', out')"
      by (cases ins) (auto simp: guess_loop.simps [of user_guess])
    from "1.IH" [OF True ins rec] show ?thesis
      by simp
  qed
qed

lemma play_again_loop_result:
  "play_again_loop play_again ins out = Inr (p, ins', out') \<Longrightarrow>
   p \<in> {''y'', ''n''} \<and> count_list out' Correct = count_list out Correct"
proof (induction play_again ins out rule: play_again_loop.induct)
  case (1 play_again ins out)
  show ?case
  proof (cases "play_again \<notin> set [''y'', ''n'']")
    case False
    with "1.prems" show ?thesis
      by (auto simp: play_again_loop.simps [of play_again])
  next
    case True
    with "1.prems" obtain line rest where ins: "ins = line # rest"
      and rec: "play_again_loop (lower line) rest (out @ [Ask_continue]) = Inr (p, ins', out')"
      by (cases ins) (auto simp: play_again_loop.simps [of play_again])
    from "1.IH" [OF True ins rec] show ?thesis
      by simp
  qed
qed

text \<open>
  At the head of the loop the score is the number of \<^verbatim>\<open>Correct!\<close> lines printed so
  far, which is the number of right guesses: a pass that continues has added one to both.
\<close>

lemma game_round_continue_tally:
  assumes "game_round rs cat (country1, country2, tally, i, ins, out)
             = Some (Inr (Continue (country1', country2', tally', i', ins', out')))"
    and "tally = int (count_list out Correct)"
  shows "tally' = int (count_list out' Correct)"
  using assms
  by (auto simp: game_round_def Let_def
      split: option.splits sum.splits if_splits
      dest!: guess_loop_result play_again_loop_result)

lemma loop_head_tally:
  assumes "loop_head rs cat ins0 st"
  shows "fst (snd (snd st)) = int (count_list (snd (snd (snd (snd (snd st))))) Correct)"
  using assms
proof (induction rule: loop_head.induct)
  case first
  show ?case by simp
next
  case (again st st')
  obtain c1 c2 t i ins out where st: "st = (c1, c2, t, i, ins, out)"
    by (cases st) auto
  obtain c1' c2' t' i' ins' out' where st': "st' = (c1', c2', t', i', ins', out')"
    by (cases st') auto
  from again st st' game_round_continue_tally [of rs cat c1 c2 t i ins out c1' c2' t' i' ins' out']
  show ?case
    by simp
qed

text \<open>From a state at the head of the loop, the loop ends as the whole run does.\<close>

lemma loop_head_rounds:
  assumes "loop_head rs cat ins0 st"
  shows "game_rounds rs cat (None, None, 0, 0, ins0, []) = game_rounds rs cat st"
  using assms
proof (induction rule: loop_head.induct)
  case first
  show ?case by simp
next
  case (again st st')
  from again.hyps(2) have "game_rounds rs cat st = game_rounds rs cat st'"
    by (subst game_rounds.simps) simp
  with again.IH show ?case
    by simp
qed

text \<open>
  What a prompt loop reads and returns does not depend on what has been printed before.
\<close>

lemma guess_loop_any_out:
  "guess_loop user_guess country1 country2 ins out = Inr (g, ins', out') \<Longrightarrow>
   \<exists>printed. guess_loop user_guess country1 country2 ins out2 = Inr (g, ins', printed)"
proof (induction user_guess country1 country2 ins out arbitrary: out2 rule: guess_loop.induct)
  case (1 user_guess country1 country2 ins out)
  show ?case
  proof (cases "user_guess \<notin> set [''1'', ''2'']")
    case False
    with "1.prems" show ?thesis
      by (auto simp: guess_loop.simps [of user_guess])
  next
    case True
    with "1.prems" obtain line rest where ins: "ins = line # rest"
      and rec: "guess_loop line country1 country2 rest
          (out @ [Ask_guess (name country1) (name country2)]) = Inr (g, ins', out')"
      by (cases ins) (auto simp: guess_loop.simps [of user_guess])
    from "1.IH" [OF True ins rec, of "out2 @ [Ask_guess (name country1) (name country2)]"]
    obtain printed where "guess_loop line country1 country2 rest
        (out2 @ [Ask_guess (name country1) (name country2)]) = Inr (g, ins', printed)"
      by blast
    with True ins show ?thesis
      by (auto simp: guess_loop.simps [of user_guess country1 country2 "line # rest" out2])
  qed
qed

lemma play_again_loop_any_out:
  "play_again_loop play_again ins out = Inr (p, ins', out') \<Longrightarrow>
   \<exists>printed. play_again_loop play_again ins out2 = Inr (p, ins', printed)"
proof (induction play_again ins out arbitrary: out2 rule: play_again_loop.induct)
  case (1 play_again ins out)
  show ?case
  proof (cases "play_again \<notin> set [''y'', ''n'']")
    case False
    with "1.prems" show ?thesis
      by (auto simp: play_again_loop.simps [of play_again])
  next
    case True
    with "1.prems" obtain line rest where ins: "ins = line # rest"
      and rec: "play_again_loop (lower line) rest (out @ [Ask_continue]) = Inr (p, ins', out')"
      by (cases ins) (auto simp: play_again_loop.simps [of play_again])
    from "1.IH" [OF True ins rec, of "out2 @ [Ask_continue]"]
    obtain printed
      where "play_again_loop (lower line) rest (out2 @ [Ask_continue]) = Inr (p, ins', printed)"
      by blast
    with True ins show ?thesis
      by (auto simp: play_again_loop.simps [of play_again "line # rest" out2])
  qed
qed

text \<open>What a pass that continues has done.\<close>

lemma game_round_continue:
  assumes "game_round rs cat (country1, country2, tally, i, ins, out) = Some (Inr (Continue st'))"
  shows "\<exists>c1 c2 j g ins1 out1 p ins2 out3.
           set_countries rs i country1 country2 cat = Some (Inr ((c1, c2), j))
         \<and> guess_loop [] c1 c2 ins out = Inr (g, ins1, out1)
         \<and> check_user_guess c1 c2 g
         \<and> play_again_loop [] ins1 (out1 @ [Show_country c1, Show_country c2, Correct])
             = Inr (p, ins2, out3)
         \<and> p \<noteq> ''n''
         \<and> st' = (Some c1, Some c2, tally + 1, j, ins2, out3 @ [Current_score (tally + 1)])"
  using assms
  by (auto simp: game_round_def Let_def split: option.splits sum.splits if_splits)

text \<open>
  At the head of the loop the score is the number of rounds played, each of them with a
  right guess: the loop has counted every right guess, and nothing else.
\<close>

lemma loop_head_right_guesses:
  assumes "loop_head rs cat ins0 st"
  shows "\<exists>n. fst (snd (snd st)) = int n
           \<and> right_guesses rs cat ins0 n
               (fst st, fst (snd st), fst (snd (snd (snd st))), fst (snd (snd (snd (snd st)))))"
  using assms
proof (induction rule: loop_head.induct)
  case first
  show ?case
    by (auto intro: right_guesses.none_yet)
next
  case (again st st')
  obtain p1 p2 t i ins out where st: "st = (p1, p2, t, i, ins, out)"
    by (cases st) auto
  from again.IH st obtain n where n: "t = int n"
    and hist: "right_guesses rs cat ins0 n (p1, p2, i, ins)"
    by auto
  from game_round_continue [OF again.hyps(2) [unfolded st]]
  obtain c1 c2 j g ins1 out1 p ins2 out3
    where sel: "set_countries rs i p1 p2 cat = Some (Inr ((c1, c2), j))"
      and guess: "guess_loop [] c1 c2 ins out = Inr (g, ins1, out1)"
      and right: "check_user_guess c1 c2 g"
      and answer: "play_again_loop [] ins1 (out1 @ [Show_country c1, Show_country c2, Correct])
          = Inr (p, ins2, out3)"
      and cont: "p \<noteq> ''n''"
      and st': "st' = (Some c1, Some c2, t + 1, j, ins2, out3 @ [Current_score (t + 1)])"
    by blast
  from guess_loop_any_out [OF guess, of "[]"] obtain a1
    where guess0: "guess_loop [] c1 c2 ins [] = Inr (g, ins1, a1)"
    by blast
  from play_again_loop_any_out [OF answer, of "[]"] obtain a2
    where answer0: "play_again_loop [] ins1 [] = Inr (p, ins2, a2)"
    by blast
  from right_guesses.one_more [OF hist sel guess0 right answer0 cont]
  have "right_guesses rs cat ins0 (Suc n) (Some c1, Some c2, j, ins2)" .
  with n st' show ?case
    by (auto intro!: exI [of _ "Suc n"])
qed

text \<open>
  Conversely, after \<open>n\<close> rounds with right guesses the loop stands at its head with
  score \<open>n\<close>.
\<close>

lemma right_guesses_loop_head:
  assumes "right_guesses rs cat ins0 n st"
  shows "\<exists>out. loop_head rs cat ins0
           (fst st, fst (snd st), int n, fst (snd (snd st)), snd (snd (snd st)), out)"
  using assms
proof (induction rule: right_guesses.induct)
  case none_yet
  show ?case
    by (auto intro: loop_head.first)
next
  case (one_more n country1 country2 i ins c1 c2 j user_guess ins1 asked1 play_again ins2 asked2)
  from one_more.IH obtain out
    where head: "loop_head rs cat ins0 (country1, country2, int n, i, ins, out)"
    by auto
  from guess_loop_any_out [OF one_more.hyps(3), of out] obtain out1
    where guess: "guess_loop [] c1 c2 ins out = Inr (user_guess, ins1, out1)"
    by blast
  from play_again_loop_any_out [OF one_more.hyps(5),
      of "out1 @ [Show_country c1, Show_country c2, Correct]"]
  obtain out3
    where answer: "play_again_loop [] ins1 (out1 @ [Show_country c1, Show_country c2, Correct])
        = Inr (play_again, ins2, out3)"
    by blast
  from one_more.hyps(2) guess one_more.hyps(4) answer one_more.hyps(6)
  have "game_round rs cat (country1, country2, int n, i, ins, out)
      = Some (Inr (Continue (Some c1, Some c2, int n + 1, j, ins2,
          out3 @ [Current_score (int n + 1)])))"
    by (simp add: game_round_def)
  from loop_head.again [OF head this]
  show ?case
    by (auto simp: add.commute)
qed

lemmas game_simps =
  game_round_def set_countries.simps roll_def choice_def randint_0_1_def game_draws_def
  guess_loop.simps play_again_loop.simps check_user_guess_def lower_def lower_char_def
  four_right_then_wrong_def usa_def canada_def asked_def right_round_def four_right_out_def

text \<open>
  Claim C3. Take any source of randomness, any catalog and any input, and any state in
  which the run stands at the head of the loop. If in the pass that follows the selector
  returns a pair, the prompt loop reads a guess and the guess is wrong, then
  \<^verbatim>\<open>game_loop\<close> returns, and it returns the score of that state. After the guess
  nothing more is read and only the two countries, \<^verbatim>\<open>Incorrect!\<close> and the final score are
  printed: no prompt to continue. The returned score is the number of right guesses made:
  it is the number \<open>n\<close> of rounds played before, in each of which \<^verbatim>\<open>check_user_guess\<close>
  held for the guess read (\<open>right_guesses\<close>), and it is the number of \<^verbatim>\<open>Correct!\<close> lines
  of the whole run. The witness is a run with four right guesses, one of them \<^verbatim>\<open>"1"\<close>
  and three \<^verbatim>\<open>"2"\<close>, and then a wrong one, which returns 4.
\<close>

theorem wrong_guess_ends_game:
  assumes "loop_head rs names_and_populations ins0 (country1, country2, tally, i, ins, out)"
    and "set_countries rs i country1 country2 names_and_populations = Some (Inr ((c1, c2), j))"
    and "guess_loop [] c1 c2 ins out = Inr (user_guess, ins1, out1)"
    and "\<not> check_user_guess c1 c2 user_guess"
  shows "game_loop rs names_and_populations ins0
           = Some (Inr (tally, j, ins1,
               out1 @ [Show_country c1, Show_country c2, Incorrect, Final_score tally]))
         \<and> (\<exists>n. tally = int n
               \<and> right_guesses rs names_and_populations ins0 n (country1, country2, i, ins))
         \<and> tally = int (count_list
               (out1 @ [Show_country c1, Show_country c2, Incorrect, Final_score tally]) Correct)"
proof -
  from assms(2-4)
  have "game_round rs names_and_populations (country1, country2, tally, i, ins, out)
      = Some (Inr (Break (Some c1, Some c2, tally, j, ins1,
          out1 @ [Show_country c1, Show_country c2, Incorrect])))"
    by (simp add: game_round_def)
  then have "game_rounds rs names_and_populations (country1, country2, tally, i, ins, out)
      = Some (Inr (Some c1, Some c2, tally, j, ins1,
          out1 @ [Show_country c1, Show_country c2, Incorrect]))"
    by (subst game_rounds.simps) simp
  with loop_head_rounds [OF assms(1)]
  have ret: "game_loop rs names_and_populations ins0
      = Some (Inr (tally, j, ins1,
          out1 @ [Show_country c1, Show_country c2, Incorrect, Final_score tally]))"
    by (simp add: game_loop_def)
  from loop_head_right_guesses [OF assms(1)]
  have hist: "\<exists>n. tally = int n
      \<and> right_guesses rs names_and_populations ins0 n (country1, country2, i, ins)"
    by simp
  from loop_head_tally [OF assms(1)] have "tally = int (count_list out Correct)"
    by simp
  with guess_loop_result [OF assms(3)] have "tally = int (count_list out1 Correct)"
    by simp
  with ret hist show ?thesis
    by simp
qed

theorem wrong_guess_ends_game_witness:
  "loop_head game_draws [usa, canada] four_right_then_wrong
     (Some canada, Some usa, 4, 12, [''x'', ''1''], four_right_out)
   \<and> set_countries game_draws 12 (Some canada) (Some usa) [usa, canada]
       = Some (Inr ((canada, usa), 14))
   \<and> guess_loop [] canada usa [''x'', ''1''] four_right_out
       = Inr (''1'', [], four_right_out @ [asked, asked])
   \<and> \<not> check_user_guess canada usa ''1''
   \<and> game_loop game_draws [usa, canada] four_right_then_wrong
       = Some (Inr (4, 14, [],
           four_right_out @ [asked, asked, Show_country canada, Show_country usa,
             Incorrect, Final_score 4]))
   \<and> right_guesses game_draws [usa, canada] four_right_then_wrong 4
       (Some canada, Some usa, 12, [''x'', ''1''])
   \<and> count_list (four_right_out @ [asked, asked, Show_country canada, Show_country usa,
             Incorrect, Final_score 4]) Correct = 4"
proof -
  let ?reach = "loop_head game_draws [usa, canada] four_right_then_wrong"
  have s0: "?reach (None, None, 0, 0, four_right_then_wrong, [])"
    by (rule loop_head.first)
  have "game_round game_draws [usa, canada] (None, None, 0, 0, four_right_then_wrong, [])
      = Some (Inr (Continue (Some usa, Some canada, 1, 4,
          [''2'', ''y'', ''2'', ''maybe'', ''y'', ''2'', ''y'', ''x'', ''1''],
          right_round usa canada 1)))"
    by (simp add: game_simps)
  from loop_head.again [OF s0 this]
  have s1: "?reach (Some usa, Some canada, 1, 4,
      [''2'', ''y'', ''2'', ''maybe'', ''y'', ''2'', ''y'', ''x'', ''1''],
      right_round usa canada 1)" .
  have "game_round game_draws [usa, canada] (Some usa, Some canada, 1, 4,
      [''2'', ''y'', ''2'', ''maybe'', ''y'', ''2'', ''y'', ''x'', ''1''],
      right_round usa canada 1)
      = Some (Inr (Continue (Some canada, Some usa, 2, 8,
          [''2'', ''maybe'', ''y'', ''2'', ''y'', ''x'', ''1''],
          right_round usa canada 1 @ right_round canada usa 2)))"
    by (simp add: game_simps)
  from loop_head.again [OF s1 this]
  have s2: "?reach (Some canada, Some usa, 2, 8,
      [''2'', ''maybe'', ''y'', ''2'', ''y'', ''x'', ''1''],
      right_round usa canada 1 @ right_round canada usa 2)" .
  have "game_round game_draws [usa, canada] (Some canada, Some usa, 2, 8,
      [''2'', ''maybe'', ''y'', ''2'', ''y'', ''x'', ''1''],
      right_round usa canada 1 @ right_round canada usa 2)
      = Some (Inr (Continue (Some canada, Some usa, 3, 10, [''2'', ''y'', ''x'', ''1''],
          right_round usa canada 1 @ right_round canada usa 2
          @ [asked, Show_country canada, Show_country usa, Correct, Ask_continue,
             Ask_continue, Current_score 3])))"
    by (simp add: game_simps)
  from loop_head.again [OF s2 this]
  have s3: "?reach (Some canada, Some usa, 3, 10, [''2'', ''y'', ''x'', ''1''],
      right_round usa canada 1 @ right_round canada usa 2
      @ [asked, Show_country canada, Show_country usa, Correct, Ask_continue,
         Ask_continue, Current_score 3])" .
  have "game_round game_draws [usa, canada] (Some canada, Some usa, 3, 10,
      [''2'', ''y'', ''x'', ''1''],
      right_round usa canada 1 @ right_round canada usa 2
      @ [asked, Show_country canada, Show_country usa, Correct, Ask_continue,
         Ask_continue, Current_score 3])
      = Some (Inr (Continue (Some canada, Some usa, 4, 12, [''x'', ''1''], four_right_out)))"
    by (simp add: game_simps)
  from loop_head.again [OF s3 this]
  have s4: "?reach (Some canada, Some usa, 4, 12, [''x'', ''1''], four_right_out)" .
  have sel: "set_countries game_draws 12 (Some canada) (Some usa) [usa, canada]
      = Some (Inr ((canada, usa), 14))"
    by (simp add: game_simps)
  have guess: "guess_loop [] canada usa [''x'', ''1''] four_right_out
      = Inr (''1'', [], four_right_out @ [asked, asked])"
    by (simp add: game_simps)
  have wrong: "\<not> check_user_guess canada usa ''1''"
    by (simp add: game_simps)
  from wrong_guess_ends_game [OF s4 sel guess wrong] s4 sel guess wrong
  show ?thesis
    by auto
qed

section \<open>Properties of the data source adapter\<close>

lemma make_country_request_logs:
  "requests_made (snd (make_country_request env endpoint w)) = requests_made w @ [endpoint]"
  by (simp add: make_country_request_def Let_def split: sum.splits)

lemmas source_simps =
  get_country_information_def make_country_request_def parse_json_def Let_def
  day_old_env_def day_old_world_def stale_world_def no_cache_world_def

text \<open>
  Claim C4, as stated, fails at the boundary: a cache file whose modification time is
  exactly the program file's minus 24 hours is not newer than that time, and it is read
  (the test of line 65 is \<^verbatim>\<open><\<close>); no request is made.
\<close>

theorem get_country_information_boundary:
  "get_country_information day_old_env endpoint_url day_old_world
     = (Inr (Some ''[]''), day_old_world)
   \<and> \<not> fst (the (cache_file day_old_world)) > program_mtime day_old_env - 86400"
  by (simp add: source_simps)

text \<open>
  Claim C4, amended. The adapter makes no HTTP request if and only if the cache file
  exists and its modification time is not older than the program file's modification time
  minus 24 hours (newer or equal); in that case it reads and parses the cache file and
  changes nothing, and otherwise it performs the live fetch.
\<close>

theorem get_country_information_cache_iff:
  "(requests_made (snd (get_country_information env endpoint w)) = requests_made w
      \<longleftrightarrow> (\<exists>mtime content. cache_file w = Some (mtime, content)
             \<and> mtime \<ge> program_mtime env - 86400))
   \<and> (\<forall>mtime content. cache_file w = Some (mtime, content)
          \<and> mtime \<ge> program_mtime env - 86400
        \<longrightarrow> get_country_information env endpoint w = (parse_json env content, w))
   \<and> (\<not> (\<exists>mtime content. cache_file w = Some (mtime, content)
             \<and> mtime \<ge> program_mtime env - 86400)
        \<longrightarrow> get_country_information env endpoint w = make_country_request env endpoint w)"
  by (auto simp: get_country_information_def make_country_request_logs split: option.splits)

theorem get_country_information_cache_iff_witness:
  "cache_file day_old_world = Some (1700000000, ''[]'')
   \<and> (1700000000 :: real) \<ge> program_mtime day_old_env - 86400
   \<and> get_country_information day_old_env endpoint_url day_old_world
       = (parse_json day_old_env ''[]'', day_old_world)
   \<and> requests_made (snd (get_country_information day_old_env endpoint_url day_old_world))
       = requests_made day_old_world
   \<and> cache_file stale_world = Some (1699999999, ''[]'')
   \<and> \<not> (1699999999 :: real) \<ge> program_mtime day_old_env - 86400
   \<and> get_country_information day_old_env endpoint_url stale_world
       = make_country_request day_old_env endpoint_url stale_world
   \<and> requests_made (snd (get_country_information day_old_env endpoint_url stale_world))
       \<noteq> requests_made stale_world"
proof -
  have fresh: "cache_file day_old_world = Some (1700000000, ''[]'')"
    "(1700000000 :: real) \<ge> program_mtime day_old_env - 86400"
    by (simp_all add: source_simps)
  have stale: "cache_file stale_world = Some (1699999999, ''[]'')"
    "\<not> (1699999999 :: real) \<ge> program_mtime day_old_env - 86400"
    by (simp_all add: source_simps)
  from get_country_information_cache_iff [of day_old_env endpoint_url day_old_world] fresh
  have "get_country_information day_old_env endpoint_url day_old_world
      = (parse_json day_old_env ''[]'', day_old_world)
    \<and> requests_made (snd (get_country_information day_old_env endpoint_url day_old_world))
      = requests_made day_old_world"
    by simp
  moreover
  from get_country_information_cache_iff [of day_old_env endpoint_url stale_world] stale
  have "get_country_information day_old_env endpoint_url stale_world
      = make_country_request day_old_env endpoint_url stale_world
    \<and> requests_made (snd (get_country_information day_old_env endpoint_url stale_world))
      \<noteq> requests_made stale_world"
    by auto
  ultimately show ?thesis
    using fresh stale by blast
qed

text \<open>
  Claim C5. When the GET of a live fetch is answered with a status code other than 200,
  \<^verbatim>\<open>make_country_request\<close> returns \<^verbatim>\<open>None\<close>: no exception for the status, and one
  request only.
\<close>

theorem make_country_request_non_200:
  assumes "http_get env endpoint = Inr request"
    and "status_code request \<noteq> 200"
  shows "fst (make_country_request env endpoint w) = Inr None
       \<and> requests_made (snd (make_country_request env endpoint w))
           = requests_made w @ [endpoint]"
  using assms by (simp add: make_country_request_def Let_def)

theorem make_country_request_non_200_witness:
  "http_get day_old_env endpoint_url = Inr \<lparr>status_code = 404, resp_text = ''Not Found''\<rparr>
   \<and> status_code \<lparr>status_code = 404, resp_text = ''Not Found''\<rparr> \<noteq> 200
   \<and> fst (make_country_request day_old_env endpoint_url no_cache_world) = Inr None
   \<and> requests_made (snd (make_country_request day_old_env endpoint_url no_cache_world))
       = [endpoint_url]"
proof -
  have got: "http_get day_old_env endpoint_url
      = Inr \<lparr>status_code = 404, resp_text = ''Not Found''\<rparr>"
    by (simp add: day_old_env_def)
  have code: "status_code \<lparr>status_code = 404, resp_text = ''Not Found''\<rparr> \<noteq> 200"
    by simp
  from make_country_request_non_200 [OF got code, of no_cache_world] got code
  show ?thesis
    by (simp add: no_cache_world_def)
qed

text \<open>
  Claim C6. Whenever the GET of a live fetch is answered, \<^verbatim>\<open>make_country_request\<close>
  leaves the cache file holding the text of the response, whatever the cache file was
  before (absent, stale or fresh) and whatever the status code is.
\<close>

theorem make_country_request_writes_cache:
  assumes "http_get env endpoint = Inr request"
  shows "cache_file (snd (make_country_request env endpoint w))
           = Some (clock env, resp_text request)"
  using assms by (simp add: make_country_request_def Let_def)

theorem make_country_request_writes_cache_witness:
  "http_get day_old_env endpoint_url = Inr \<lparr>status_code = 404, resp_text = ''Not Found''\<rparr>
   \<and> cache_file day_old_world = Some (1700000000, ''[]'')
   \<and> cache_file (snd (make_country_request day_old_env endpoint_url day_old_world))
       = Some (1700090000, ''Not Found'')"
proof -
  have got: "http_get day_old_env endpoint_url
      = Inr \<lparr>status_code = 404, resp_text = ''Not Found''\<rparr>"
    by (simp add: day_old_env_def)
  from make_country_request_writes_cache [OF got, of day_old_world] got
  show ?thesis
    by (simp add: day_old_env_def day_old_world_def)
qed

section \<open>Properties of the score store\<close>

lemma order_by_score_desc_sorted:
  "sorted_wrt (\<ge>) (map row_score (order_by_score_desc table))"
proof -
  have "sorted (map (\<lambda>r. - row_score r) (order_by_score_desc table))"
    by (simp add: order_by_score_desc_def)
  then show ?thesis
    by (simp add: sorted_wrt_map)
qed

lemma sql_limit_sorted:
  "sorted_wrt (\<ge>) (map row_score xs) \<Longrightarrow> sorted_wrt (\<ge>) (map row_score (sql_limit n xs))"
  by (simp add: sql_limit_def take_map [symmetric] sorted_wrt_take del: take_map)

lemma scores_of_rows: "map score (map user_score_of xs) = map row_score xs"
  by (simp add: user_score_of_def comp_def)

lemma length_sql_limit: "0 \<le> n \<Longrightarrow> int (length (sql_limit n xs)) \<le> n"
  by (simp add: sql_limit_def)

lemma top_rows_sorted:
  "sorted_wrt (\<ge>) (map score (map user_score_of (sql_limit n (order_by_score_desc table))))"
  unfolding scores_of_rows by (rule sql_limit_sorted) (rule order_by_score_desc_sorted)

lemmas store_simps =
  get_top_scores_def sqlite_integer_def sql_limit_def order_by_score_desc_def
  user_score_of_def leaderboard_def amy_def bob_def dan_def

text \<open>
  Claim C7, as stated, fails for a negative amount: with \<^verbatim>\<open>LIMIT -1\<close> the query returns
  the three rows of the leaderboard, which is more than \<open>-1\<close> rows.
\<close>

theorem get_top_scores_minus_one:
  "get_top_scores (- 1) leaderboard = Inr [bob, amy, dan]
   \<and> \<not> int (length [bob, amy, dan]) \<le> - 1"
  by (simp add: store_simps)

text \<open>
  Claim C7, amended. For every amount that SQLite can bind (a 64-bit integer) the query
  returns a list of rows, and for no other amount. The scores of the returned rows are
  non-increasing, and for every amount \<open>n \<ge> 0\<close> there are at most \<open>n\<close> rows.
\<close>

theorem get_top_scores_bound:
  "(sqlite_integer n \<longrightarrow> (\<exists>us. get_top_scores n table = Inr us))
   \<and> (\<forall>us. get_top_scores n table = Inr us \<longrightarrow>
         sqlite_integer n \<and> sorted_wrt (\<ge>) (map score us)
         \<and> (0 \<le> n \<longrightarrow> int (length us) \<le> n))"
proof (cases "sqlite_integer n")
  case True
  then have "get_top_scores n table
      = Inr (map user_score_of (sql_limit n (order_by_score_desc table)))"
    by (simp add: get_top_scores_def)
  with True top_rows_sorted [of n table] length_sql_limit [of n "order_by_score_desc table"]
  show ?thesis
    by auto
next
  case False
  then show ?thesis
    by (simp add: get_top_scores_def)
qed

theorem get_top_scores_bound_witness:
  "sqlite_integer 2
   \<and> get_top_scores 2 leaderboard = Inr [bob, amy]
   \<and> sorted_wrt (\<ge>) (map score [bob, amy])
   \<and> (0 :: int) \<le> 2
   \<and> int (length [bob, amy]) \<le> 2"
proof -
  have bind: "sqlite_integer 2"
    by (simp add: sqlite_integer_def)
  have top: "get_top_scores 2 leaderboard = Inr [bob, amy]"
    by (simp add: store_simps)
  from get_top_scores_bound [of 2 leaderboard] bind top
  show ?thesis
    by simp
qed

text \<open>
  Claim C10, as stated, fails for a negative amount below the 64-bit range: binding it
  raises \<^verbatim>\<open>OverflowError\<close> and no row is returned.
\<close>

theorem get_top_scores_below_int64:
  "(- 9223372036854775809 :: int) < 0
   \<and> get_top_scores (- 9223372036854775809) leaderboard = Inl OverflowError"
  by (simp add: get_top_scores_def sqlite_integer_def)

text \<open>
  Claim C10, amended. For every negative amount \<open>n\<close> that SQLite can bind
  (\<open>- 2 ^ 63 \<le> n < 0\<close>) the query returns every row of the store, ordered by score,
  rather than at most \<open>n\<close> rows: the bound of at most \<open>n\<close> rows needs \<open>n \<ge> 0\<close>.
\<close>

theorem get_top_scores_negative:
  assumes "n < 0" and "- (2 ^ 63) \<le> n"
  shows "get_top_scores n table = Inr (map user_score_of (order_by_score_desc table))
       \<and> mset (map user_score_of (order_by_score_desc table)) = mset (map user_score_of table)
       \<and> \<not> int (length (map user_score_of (order_by_score_desc table))) \<le> n"
  using assms
  by (auto simp: get_top_scores_def sqlite_integer_def sql_limit_def order_by_score_desc_def)

theorem get_top_scores_negative_witness:
  "(- 5 :: int) < 0 \<and> - (2 ^ 63) \<le> (- 5 :: int)
   \<and> get_top_scores (- 5) leaderboard = Inr [bob, amy, dan]
   \<and> mset [bob, amy, dan] = mset (map user_score_of leaderboard)
   \<and> \<not> int (length [bob, amy, dan]) \<le> - 5"
proof -
  have neg: "(- 5 :: int) < 0" and bind: "- (2 ^ 63) \<le> (- 5 :: int)"
    by simp_all
  have sorted_rows: "map user_score_of (order_by_score_desc leaderboard) = [bob, amy, dan]"
    by (simp add: store_simps)
  from get_top_scores_negative [OF neg bind, of leaderboard] neg bind
  show ?thesis
    unfolding sorted_rows by simp
qed

end
